theory Spec2Isabelle
  imports Complex_Main
begin

section \<open>Text, exceptions and the processing state\<close>

text \<open>
  Python strings are sequences of Unicode code points, so a string of the model is a list
  of code points. \<open>ustr\<close> reads an ASCII literal as such a list.
\<close>

type_synonym ustring = "nat list"

definition ustr :: "string \<Rightarrow> ustring" where
  "ustr s = map of_char s"

text \<open>The exception classes that the modelled code raises or catches.\<close>

datatype py_exn =
    JSONDecodeError
  | OSError
  | UnicodeDecodeError
  | KeyError
  | ConnectionError
  | ReError
  | OtherError ustring

text \<open>
  The state dictionary of \<open>ZoteroSync\<close>, with the three keys of the state file
  (module docstring of \<open>zotero_sync.py\<close>).
\<close>

record pstate =
  last_version :: int
  processed_keys :: "ustring list"
  processed_titles :: "ustring list"

definition zero_state :: pstate where
  "zero_state = \<lparr>last_version = 0, processed_keys = [], processed_titles = []\<rparr>"

text \<open>
  What \<open>STATE_FILE.exists()\<close>, \<open>open\<close> and \<open>json.load\<close> do with the state file:
  it is absent; or opening or reading it raises \<open>OSError\<close>; or its bytes are not UTF-8,
  so that the text-mode read inside \<open>json.load\<close> raises \<open>UnicodeDecodeError\<close>; or its
  text is not JSON (\<open>JSONDecodeError\<close>); or it holds the JSON of a state.
\<close>

datatype state_file =
    Missing
  | Unreadable
  | NotUtf8
  | NotJson
  | Holds pstate

definition file_exists :: "state_file \<Rightarrow> bool" where
  "file_exists f = (f \<noteq> Missing)"

fun open_json_load :: "state_file \<Rightarrow> py_exn + pstate" where
  "open_json_load Missing = Inl OSError"
| "open_json_load Unreadable = Inl OSError"
| "open_json_load NotUtf8 = Inl UnicodeDecodeError"
| "open_json_load NotJson = Inl JSONDecodeError"
| "open_json_load (Holds s) = Inr s"

text \<open>
  \<open>load_state\<close> (lines 83-91): the \<open>except\<close> clause names \<open>json.JSONDecodeError\<close> and
  \<open>OSError\<close>; any other exception leaves the function.
\<close>

definition load_state :: "state_file \<Rightarrow> py_exn + pstate" where
  "load_state f =
     (if file_exists f then
        (case open_json_load f of
           Inr s \<Rightarrow> Inr s
         | Inl e \<Rightarrow> (if e = JSONDecodeError \<or> e = OSError then Inr zero_state else Inl e))
      else Inr zero_state)"

text \<open>\<open>save_state\<close> (lines 93-96) writes the JSON of the state.\<close>

definition save_state :: "pstate \<Rightarrow> state_file" where
  "save_state s = Holds s"

section \<open>Normalised titles\<close>

text \<open>The code points for which \<open>str.isspace\<close> holds; the class \<open>\s\<close> of \<open>re\<close> is the same set.\<close>

definition is_space :: "nat \<Rightarrow> bool" where
  "is_space c = (c \<in> set [9, 10, 11, 12, 13, 28, 29, 30, 31, 32, 133, 160, 5760,
     8192, 8193, 8194, 8195, 8196, 8197, 8198, 8199, 8200, 8201, 8202,
     8232, 8233, 8239, 8287, 12288])"

text \<open>
  \<open>_HTML_TAG_RE.sub("", title)\<close> with \<open>_HTML_TAG_RE = <[^>]+>\<close>: at a \<open><\<close> (60) the
  match takes every following code point up to the next \<open>>\<close> (62), and needs at least
  one of them and the closing \<open>>\<close>; otherwise the \<open><\<close> stays.
\<close>

function strip_tags :: "ustring \<Rightarrow> ustring" where
  "strip_tags [] = []"
| "strip_tags (c # cs) =
     (if c = 60 \<and> takeWhile (\<lambda>x. x \<noteq> 62) cs \<noteq> [] \<and> dropWhile (\<lambda>x. x \<noteq> 62) cs \<noteq> []
      then strip_tags (tl (dropWhile (\<lambda>x. x \<noteq> 62) cs))
      else c # strip_tags cs)"
  by pat_completeness auto
termination
proof (relation "measure length")
  fix c :: nat and cs :: "nat list"
  have "length (tl (dropWhile (\<lambda>x. x \<noteq> 62) cs)) \<le> length cs"
    using length_dropWhile_le [of "\<lambda>x. x \<noteq> 62" cs] by simp
  then show "(tl (dropWhile (\<lambda>x. x \<noteq> 62) cs), c # cs) \<in> measure length"
    by simp
qed simp_all

text \<open>\<open>re.sub(r"\s+", " ", cleaned)\<close>: every run of white space becomes one space (32).\<close>

function collapse_ws :: "ustring \<Rightarrow> ustring" where
  "collapse_ws [] = []"
| "collapse_ws (c # cs) =
     (if is_space c then 32 # collapse_ws (dropWhile is_space cs) else c # collapse_ws cs)"
  by pat_completeness auto
termination
proof (relation "measure length")
  fix c :: nat and cs :: "nat list"
  show "(dropWhile is_space cs, c # cs) \<in> measure length"
    using length_dropWhile_le [of is_space cs] by simp
qed simp_all

definition py_strip :: "ustring \<Rightarrow> ustring" where
  "py_strip s = rev (dropWhile is_space (rev (dropWhile is_space s)))"

text \<open>
  \<open>str.lower\<close> on the letters A-Z. Code points outside ASCII are returned as they are;
  the source lower-cases them by the Unicode tables.
\<close>

definition py_lower :: "ustring \<Rightarrow> ustring" where
  "py_lower s = map (\<lambda>c. if 65 \<le> c \<and> c \<le> 90 then c + 32 else c) s"

definition normalize_title :: "ustring \<Rightarrow> ustring" where
  "normalize_title title = py_lower (py_strip (collapse_ws (strip_tags title)))"

section \<open>Replacement templates and the two line patterns of the merge\<close>

text \<open>
  \<open>re.subn\<close> compiles a replacement string that contains a backslash as a template
  before it looks for a match (\<open>parse_template\<close> of the standard library), and raises
  \<open>re.error\<close> for a template it cannot compile. A compiled template is a sequence of
  literal code points and group references. \<open>groups\<close> is the number of groups of the
  pattern.

  A group name that is not an ASCII decimal number raises here. (For an alphabetic name
  the library raises \<open>IndexError\<close>, since the patterns have no named group; no caller
  tells the two apart. Interpreters before 3.12 accept a few more spellings of a number.)
\<close>

datatype tpart = Lit nat | Grp nat

definition is_digit :: "nat \<Rightarrow> bool" where
  "is_digit c = (48 \<le> c \<and> c \<le> 57)"

definition is_octdigit :: "nat \<Rightarrow> bool" where
  "is_octdigit c = (48 \<le> c \<and> c \<le> 55)"

definition is_ascii_letter :: "nat \<Rightarrow> bool" where
  "is_ascii_letter c = ((65 \<le> c \<and> c \<le> 90) \<or> (97 \<le> c \<and> c \<le> 122))"

fun digits_value :: "nat \<Rightarrow> nat \<Rightarrow> ustring \<Rightarrow> nat" where
  "digits_value base acc [] = acc"
| "digits_value base acc (d # ds) = digits_value base (acc * base + (d - 48)) ds"

text \<open>The table \<open>ESCAPES\<close> of the template parser: \<open>\a \b \f \n \r \t \v \\\<close>.\<close>

definition escapes :: "nat \<Rightarrow> nat option" where
  "escapes c =
     (if c = 97 then Some 7 else if c = 98 then Some 8 else if c = 102 then Some 12
      else if c = 110 then Some 10 else if c = 114 then Some 13 else if c = 116 then Some 9
      else if c = 118 then Some 11 else if c = 92 then Some 92 else None)"

definition add_part :: "tpart list \<Rightarrow> py_exn + tpart list \<Rightarrow> py_exn + tpart list" where
  "add_part ps r = (case r of Inl e \<Rightarrow> Inl e | Inr qs \<Rightarrow> Inr (ps @ qs))"

function parse_template :: "nat \<Rightarrow> ustring \<Rightarrow> py_exn + tpart list" where
  "parse_template groups [] = Inr []"
| "parse_template groups [c] = (if c = 92 then Inl ReError else Inr [Lit c])"
| "parse_template groups (c # d # cs) =
     (if c \<noteq> 92 then add_part [Lit c] (parse_template groups (d # cs))
      else if d = 103 then
        (case cs of
           [] \<Rightarrow> Inl ReError
         | lt # rest \<Rightarrow>
             (if lt \<noteq> 60 then Inl ReError
              else if dropWhile (\<lambda>x. x \<noteq> 62) rest = [] then Inl ReError
              else if takeWhile (\<lambda>x. x \<noteq> 62) rest = [] then Inl ReError
              else if \<not> list_all is_digit (takeWhile (\<lambda>x. x \<noteq> 62) rest) then Inl ReError
              else if digits_value 10 0 (takeWhile (\<lambda>x. x \<noteq> 62) rest) > groups then Inl ReError
              else add_part [Grp (digits_value 10 0 (takeWhile (\<lambda>x. x \<noteq> 62) rest))]
                     (parse_template groups (tl (dropWhile (\<lambda>x. x \<noteq> 62) rest)))))
      else if d = 48 then
        add_part [Lit (digits_value 8 0 (takeWhile is_octdigit (take 2 cs)) mod 256)]
          (parse_template groups (drop (length (takeWhile is_octdigit (take 2 cs))) cs))
      else if is_digit d then
        (case cs of
           [] \<Rightarrow> (if d - 48 > groups then Inl ReError else Inr [Grp (d - 48)])
         | d2 # rest \<Rightarrow>
             (if \<not> is_digit d2 then
                (if d - 48 > groups then Inl ReError
                 else add_part [Grp (d - 48)] (parse_template groups (d2 # rest)))
              else if is_octdigit d \<and> is_octdigit d2 \<and> rest \<noteq> [] \<and> is_octdigit (hd rest) then
                (if digits_value 8 0 [d, d2, hd rest] > 255 then Inl ReError
                 else add_part [Lit (digits_value 8 0 [d, d2, hd rest])]
                        (parse_template groups (tl rest)))
              else if digits_value 10 0 [d, d2] > groups then Inl ReError
              else add_part [Grp (digits_value 10 0 [d, d2])] (parse_template groups rest)))
      else
        (case escapes d of
           Some e \<Rightarrow> add_part [Lit e] (parse_template groups cs)
         | None \<Rightarrow>
             (if is_ascii_letter d then Inl ReError
              else add_part [Lit 92, Lit d] (parse_template groups cs))))"
  by pat_completeness auto
termination
proof -
  have drop_le: "length (dropWhile (\<lambda>x. x \<noteq> 62) rest) - Suc 0 \<le> Suc (Suc (length rest))"
    for rest :: "nat list"
    using length_dropWhile_le [of "\<lambda>x. x \<noteq> 62" rest] by simp
  show ?thesis
    by (relation "measure (\<lambda>(g, s). length s)")
      (auto simp: less_Suc_eq_le drop_le)
qed

text \<open>
  Expanding a template at a match. In both patterns below the one group spans the whole
  match, so group 0 and group 1 are the matched text.
\<close>

fun expand_template :: "tpart list \<Rightarrow> ustring \<Rightarrow> ustring" where
  "expand_template [] m = []"
| "expand_template (Lit c # ps) m = c # expand_template ps m"
| "expand_template (Grp i # ps) m = m @ expand_template ps m"

text \<open>Lines: \<open>$\<close> and \<open>^\<close> under \<open>re.MULTILINE\<close> take the line feed (10) as the only line end.\<close>

fun split_nl :: "ustring \<Rightarrow> ustring list" where
  "split_nl [] = [[]]"
| "split_nl (c # cs) =
     (if c = 10 then [] # split_nl cs
      else (case split_nl cs of [] \<Rightarrow> [[c]] | l # ls \<Rightarrow> (c # l) # ls))"

fun join_nl :: "ustring list \<Rightarrow> ustring" where
  "join_nl [] = []"
| "join_nl [l] = l"
| "join_nl (l # m # ls) = l @ 10 # join_nl (m # ls)"

definition is_blank :: "nat \<Rightarrow> bool" where
  "is_blank c = (c = 32 \<or> c = 9)"

definition rstrip_blank :: "ustring \<Rightarrow> ustring" where
  "rstrip_blank s = rev (dropWhile is_blank (rev s))"

definition ends_with :: "ustring \<Rightarrow> ustring \<Rightarrow> bool" where
  "ends_with suf s = (take (length suf) (rev s) = rev suf)"

definition marker :: "ustring \<Rightarrow> ustring" where
  "marker name = ustr ''**'' @ name @ ustr ''**:''"

text \<open>
  The two patterns of \<open>update_existing_markdown\<close>:
  \<open>Field name\<close> is \<open>(\*\*name\*\*:[ \t]*)$\<close>, the bold label \<open>name\<close> and a colon followed
  by spaces and tabs only up to the end of the line, anywhere in a line;
  \<open>Frontmatter_doi\<close> is \<open>^(doi:[ \t]*)$\<close>, a whole line.
  A line holds at most one match, and the match runs to the end of the line.
\<close>

datatype line_pat = Field ustring | Frontmatter_doi

fun line_matches :: "line_pat \<Rightarrow> ustring \<Rightarrow> bool" where
  "line_matches (Field name) l = ends_with (marker name) (rstrip_blank l)"
| "line_matches Frontmatter_doi l = (rstrip_blank l = ustr ''doi:'')"

fun match_start :: "line_pat \<Rightarrow> ustring \<Rightarrow> nat" where
  "match_start (Field name) l = length (rstrip_blank l) - length (marker name)"
| "match_start Frontmatter_doi l = 0"

definition sub_line :: "line_pat \<Rightarrow> tpart list \<Rightarrow> ustring \<Rightarrow> ustring" where
  "sub_line pat tmpl l =
     (if line_matches pat l
      then take (match_start pat l) l @ expand_template tmpl (drop (match_start pat l) l)
      else l)"

text \<open>\<open>re.subn(pattern, replacement, text, flags=re.MULTILINE)\<close>: the new text and the count.\<close>

definition re_subn :: "line_pat \<Rightarrow> ustring \<Rightarrow> ustring \<Rightarrow> py_exn + (ustring \<times> nat)" where
  "re_subn pat repl text =
     (case parse_template 1 repl of
        Inl e \<Rightarrow> Inl e
      | Inr tmpl \<Rightarrow>
          Inr (join_nl (map (sub_line pat tmpl) (split_nl text)),
               length (filter (line_matches pat) (split_nl text))))"

section \<open>Remote items and their bibliographic record\<close>

text \<open>
  An item as the Zotero client returns it: a key and a \<open>data\<close> dictionary. A field that
  the code reads with \<open>data.get(name, "")\<close> is the empty string when absent; the title is
  read with two different defaults, so its absence is kept.
\<close>

record creator =
  creatorType :: ustring
  lastName :: ustring
  firstName :: ustring

record zdata =
  itemType :: ustring
  title :: "ustring option"
  creators :: "creator list"
  date :: ustring
  publicationTitle :: ustring
  bookTitle :: ustring
  proceedingsTitle :: ustring
  publisher :: ustring
  abstractNote :: ustring
  DOI :: ustring
  volume :: ustring
  issue :: ustring
  pages :: ustring
  ISSN :: ustring
  url :: ustring
  language :: ustring
  tags :: "ustring list"
  version :: int

record zitem =
  key :: ustring
  data :: zdata

text \<open>
  The dictionary that \<open>build_biblio\<close> returns (lines 202-267), without its \<open>tags\<close> entry:
  the tags go through \<open>normalize_tag\<close>, and no function modelled here reads them.
\<close>

record biblio =
  bib_title :: ustring
  bib_author :: ustring
  bib_year :: ustring
  bib_journal :: ustring
  bib_abstract :: ustring
  bib_zotero_key :: ustring
  bib_doi :: ustring
  bib_volume :: ustring
  bib_issue :: ustring
  bib_pages :: ustring
  bib_issn :: ustring
  bib_url :: ustring
  bib_language :: ustring
  bib_publisher :: ustring

definition strip_chars :: "ustring \<Rightarrow> ustring \<Rightarrow> ustring" where
  "strip_chars chars s =
     rev (dropWhile (\<lambda>c. c \<in> set chars) (rev (dropWhile (\<lambda>c. c \<in> set chars) s)))"

fun join_with :: "ustring \<Rightarrow> ustring list \<Rightarrow> ustring" where
  "join_with sep [] = []"
| "join_with sep [x] = x"
| "join_with sep (x # y # xs) = x @ sep @ join_with sep (y # xs)"

definition creator_name :: "creator \<Rightarrow> ustring" where
  "creator_name c =
     (if lastName c \<noteq> [] then strip_chars (ustr '', '') (lastName c @ ustr '', '' @ firstName c)
      else firstName c)"

text \<open>
  \<open>re.search(r"((?:19|20)\d{2})", date_str)\<close>: the first place where 19 or 20 is followed
  by two digits; the year is empty when there is none. (Digits are the ASCII digits.)
\<close>

fun search_year :: "ustring \<Rightarrow> ustring" where
  "search_year (a # b # c # d # rest) =
     (if ((a = 49 \<and> b = 57) \<or> (a = 50 \<and> b = 48)) \<and> is_digit c \<and> is_digit d then [a, b, c, d]
      else search_year (b # c # d # rest))"
| "search_year s = []"

definition first_nonempty :: "ustring list \<Rightarrow> ustring" where
  "first_nonempty xs = (case filter (\<lambda>x. x \<noteq> []) xs of [] \<Rightarrow> [] | x # _ \<Rightarrow> x)"

definition build_biblio :: "zitem \<Rightarrow> biblio" where
  "build_biblio item =
     \<lparr>bib_title = (case title (data item) of None \<Rightarrow> [] | Some t \<Rightarrow> t),
      bib_author = join_with (ustr ''; '')
        (filter (\<lambda>n. n \<noteq> [])
           (map creator_name
              (filter (\<lambda>c. creatorType c = ustr ''author'') (creators (data item))))),
      bib_year = search_year (date (data item)),
      bib_journal = first_nonempty [publicationTitle (data item), bookTitle (data item),
        proceedingsTitle (data item), publisher (data item)],
      bib_abstract = abstractNote (data item),
      bib_zotero_key = key item,
      bib_doi = DOI (data item),
      bib_volume = volume (data item),
      bib_issue = issue (data item),
      bib_pages = pages (data item),
      bib_issn = ISSN (data item),
      bib_url = url (data item),
      bib_language = language (data item),
      bib_publisher = publisher (data item)\<rparr>"

section \<open>The note files and the watcher\<close>

text \<open>
  The files that \<open>MARKDOWN_DIR.glob("@*.md")\<close> lists, in its order: the path and the text,
  or \<open>None\<close> for a file whose \<open>read_text\<close> raises.
\<close>

type_synonym vault = "(ustring \<times> ustring option) list"

definition starts_with :: "ustring \<Rightarrow> ustring \<Rightarrow> bool" where
  "starts_with pre s = (take (length pre) s = pre)"

fun is_substring :: "ustring \<Rightarrow> ustring \<Rightarrow> bool" where
  "is_substring pat [] = (pat = [])"
| "is_substring pat (c # cs) = (starts_with pat (c # cs) \<or> is_substring pat cs)"

fun find_markdown_by_key :: "ustring \<Rightarrow> vault \<Rightarrow> ustring option" where
  "find_markdown_by_key zotero_key [] = None"
| "find_markdown_by_key zotero_key ((md_path, None) # files) =
     find_markdown_by_key zotero_key files"
| "find_markdown_by_key zotero_key ((md_path, Some text) # files) =
     (if is_substring (ustr ''zotero_key: '' @ zotero_key) text then Some md_path
      else find_markdown_by_key zotero_key files)"

definition read_text :: "ustring \<Rightarrow> vault \<Rightarrow> ustring option" where
  "read_text md_path v = (case map_of v md_path of Some (Some text) \<Rightarrow> Some text | _ \<Rightarrow> None)"

definition write_text :: "ustring \<Rightarrow> ustring \<Rightarrow> vault \<Rightarrow> vault" where
  "write_text md_path text v =
     map (\<lambda>(p, c). if p = md_path then (p, Some text) else (p, c)) v"

text \<open>
  \<open>ObsidianWatcher\<close>: the snapshots (modification time and content hash per path) and the
  times of the self-modifications. Times are the readings of \<open>time.time()\<close> and
  \<open>st_mtime\<close>, taken as real numbers.
\<close>

record watcher =
  snapshots :: "ustring \<rightharpoonup> (real \<times> ustring)"
  self_modified :: "ustring \<rightharpoonup> real"

definition SELF_MODIFY_COOLDOWN :: real where
  "SELF_MODIFY_COOLDOWN = 3"

text \<open>\<open>mark_self_modified\<close> (lines 465-468); \<open>now\<close> is the reading of \<open>time.time()\<close>.\<close>

definition mark_self_modified :: "real \<Rightarrow> ustring \<Rightarrow> watcher \<Rightarrow> watcher" where
  "mark_self_modified now path w = w\<lparr>self_modified := (self_modified w)(path \<mapsto> now)\<rparr>"

text \<open>
  \<open>_is_self_modified\<close> (lines 470-477). The test \<open>if ts\<close> is false for an absent entry
  and for the time 0.
\<close>

definition is_self_modified :: "real \<Rightarrow> ustring \<Rightarrow> watcher \<Rightarrow> bool \<times> watcher" where
  "is_self_modified now path_str w =
     (case self_modified w path_str of
        None \<Rightarrow> (False, w)
      | Some ts \<Rightarrow>
          (if ts \<noteq> 0 \<and> now - ts < SELF_MODIFY_COOLDOWN then (True, w)
           else if ts \<noteq> 0 then (False, w\<lparr>self_modified := (self_modified w)(path_str := None)\<rparr>)
           else (False, w)))"

text \<open>
  \<open>scan\<close> (lines 479-504). What the scan meets, file by file in the order of the glob:
  the path; the modification time and the text, or \<open>None\<close> when \<open>stat\<close> or \<open>read_text\<close>
  raises; and the reading of the clock if \<open>_is_self_modified\<close> is called for this file.
  \<open>hashf\<close> is the MD5 digest of \<open>_hash\<close>.
\<close>

type_synonym observation = "ustring \<times> (real \<times> ustring) option \<times> real"

fun scan_files ::
  "(ustring \<Rightarrow> ustring) \<Rightarrow> observation list \<Rightarrow> ustring list \<Rightarrow> watcher \<Rightarrow> ustring list \<times> watcher"
where
  "scan_files hashf [] changed w = (changed, w)"
| "scan_files hashf ((path_str, None, now) # files) changed w = scan_files hashf files changed w"
| "scan_files hashf ((path_str, Some (mtime, text), now) # files) changed w =
     (case snapshots w path_str of
        None \<Rightarrow>
          scan_files hashf files changed
            (w\<lparr>snapshots := (snapshots w)(path_str \<mapsto> (mtime, hashf text))\<rparr>)
      | Some (prev_mtime, prev_hash) \<Rightarrow>
          (if mtime \<noteq> prev_mtime \<and> hashf text \<noteq> prev_hash then
             (case is_self_modified now path_str w of
                (suppressed, w') \<Rightarrow>
                  scan_files hashf files
                    (if \<not> suppressed then changed @ [path_str] else changed)
                    (w'\<lparr>snapshots := (snapshots w')(path_str \<mapsto> (mtime, hashf text))\<rparr>))
           else scan_files hashf files changed w))"

definition scan :: "(ustring \<Rightarrow> ustring) \<Rightarrow> observation list \<Rightarrow> watcher \<Rightarrow> ustring list \<times> watcher" where
  "scan hashf files w = scan_files hashf files [] w"

section \<open>Merging remote fields into an existing note\<close>

text \<open>
  The labels of \<open>field_patterns\<close> (lines 348-360) as the text that each pattern matches,
  with the value of the bibliographic record beside it.
\<close>

definition field_labels :: "ustring list" where
  "field_labels =
     [[51200, 51088], [50672, 46020], [51200, 45328, 47, 52636, 52376],
      [52636, 54032, 49324], [44428] @ ustr ''(Vol)'', [54840] @ ustr ''(Issue)'',
      [54168, 51060, 51648], ustr ''DOI'', ustr ''ISSN'', ustr ''URL'', [50616, 50612]]"

definition field_patterns :: "biblio \<Rightarrow> (ustring \<times> ustring) list" where
  "field_patterns b =
     zip field_labels
       [bib_author b, bib_year b, bib_journal b, bib_publisher b, bib_volume b, bib_issue b,
        bib_pages b, bib_doi b, bib_issn b, bib_url b, bib_language b]"

text \<open>The replacement \<open>rf'\g<1>{new_val}'\<close>.\<close>

definition replacement :: "ustring \<Rightarrow> ustring" where
  "replacement new_val = [92] @ ustr ''g<1>'' @ new_val"

text \<open>The loop over the fields (lines 362-372), with the text and the flag \<open>changed\<close>.\<close>

fun subn_fields ::
  "(ustring \<times> ustring) list \<Rightarrow> ustring \<Rightarrow> bool \<Rightarrow> py_exn + (ustring \<times> bool)"
where
  "subn_fields [] text changed = Inr (text, changed)"
| "subn_fields ((field_name, new_val) # fs) text changed =
     (if new_val = [] then subn_fields fs text changed
      else
        (case re_subn (Field field_name) (replacement new_val) text of
           Inl e \<Rightarrow> Inl e
         | Inr (new_text, n) \<Rightarrow>
             (if n \<noteq> 0 then subn_fields fs new_text True
              else subn_fields fs text changed)))"

text \<open>Lines 347-382: the fields, then the \<open>doi\<close> line of the frontmatter.\<close>

definition update_text :: "biblio \<Rightarrow> ustring \<Rightarrow> py_exn + (ustring \<times> bool)" where
  "update_text b text =
     (case subn_fields (field_patterns b) text False of
        Inl e \<Rightarrow> Inl e
      | Inr (text1, changed) \<Rightarrow>
          (if bib_doi b \<noteq> [] then
             (case re_subn Frontmatter_doi (replacement (bib_doi b)) text1 of
                Inl e \<Rightarrow> Inl e
              | Inr (new_text, n) \<Rightarrow>
                  (if n \<noteq> 0 then Inr (new_text, True) else Inr (text1, changed)))
           else Inr (text1, changed)))"

text \<open>
  \<open>update_existing_markdown\<close> (lines 334-391) on the note files and the watcher that
  \<open>obs_watcher\<close> refers to, if any. An exception of \<open>re.subn\<close> leaves the function before
  anything is written.
\<close>

definition update_existing_markdown ::
  "real \<Rightarrow> zitem \<Rightarrow> vault \<Rightarrow> watcher option \<Rightarrow> py_exn + (bool \<times> vault \<times> watcher option)"
where
  "update_existing_markdown now item v w =
     (case find_markdown_by_key (key item) v of
        None \<Rightarrow> Inr (False, v, w)
      | Some md_path \<Rightarrow>
          (case read_text md_path v of
             None \<Rightarrow> Inr (False, v, w)
           | Some text \<Rightarrow>
               (case update_text (build_biblio item) text of
                  Inl e \<Rightarrow> Inl e
                | Inr (new_text, changed) \<Rightarrow>
                    (if changed
                     then Inr (True, write_text md_path new_text v,
                               map_option (mark_self_modified now md_path) w)
                     else Inr (False, v, w)))))"

section \<open>Detecting new items\<close>

record sync =
  state :: pstate
  markdown_dir :: vault
  obs_watcher :: "watcher option"

text \<open>
  The loop of lines 132-155. \<open>keys\<close> and \<open>titles\<close> are the two sets built before the loop
  (lines 111-112); the loop appends to the list in the state, not to them.
\<close>

fun classify ::
  "ustring list \<Rightarrow> ustring list \<Rightarrow> zitem list \<Rightarrow> zitem list \<Rightarrow> zitem list \<Rightarrow> pstate
   \<Rightarrow> zitem list \<times> zitem list \<times> pstate"
where
  "classify keys titles [] new_items updated_items st = (new_items, updated_items, st)"
| "classify keys titles (item # items) new_items updated_items st =
     (if itemType (data item) = ustr ''attachment'' \<or> itemType (data item) = ustr ''note''
      then classify keys titles items new_items updated_items st
      else if itemType (data item) = ustr ''thesis'' \<or> itemType (data item) = ustr ''dissertation''
      then classify keys titles items new_items updated_items st
      else if key item \<in> set keys
      then classify keys titles items new_items (updated_items @ [item]) st
      else if normalize_title (case title (data item) of None \<Rightarrow> [] | Some t \<Rightarrow> t) \<noteq> []
            \<and> normalize_title (case title (data item) of None \<Rightarrow> [] | Some t \<Rightarrow> t) \<in> set titles
      then classify keys titles items new_items updated_items
             (st\<lparr>processed_keys := processed_keys st @ [key item]\<rparr>)
      else classify keys titles items (new_items @ [item]) updated_items st)"

text \<open>The loop of lines 158-164; an exception of an update ends it.\<close>

fun update_all ::
  "real \<Rightarrow> zitem list \<Rightarrow> vault \<Rightarrow> watcher option \<Rightarrow> py_exn option \<times> vault \<times> watcher option"
where
  "update_all now [] v w = (None, v, w)"
| "update_all now (item # items) v w =
     (case update_existing_markdown now item v w of
        Inl e \<Rightarrow> (Some e, v, w)
      | Inr (changed, v', w') \<Rightarrow> update_all now items v' w')"

text \<open>
  \<open>get_new_items\<close> (lines 100-166). \<open>zot_items since\<close> is what
  \<open>self.zot.items(since=..., itemType="-attachment || note")\<close> does, and
  \<open>last_modified_version\<close> what \<open>self.zot.last_modified_version()\<close> does: each returns or
  raises. \<open>now\<close> is the reading of the clock in this cycle. The result is what the call
  returns or raises, and the object after the call.
\<close>

definition get_new_items ::
  "(int \<Rightarrow> py_exn + zitem list) \<Rightarrow> (py_exn + int) \<Rightarrow> real \<Rightarrow> sync
   \<Rightarrow> (py_exn + zitem list) \<times> sync"
where
  "get_new_items zot_items last_modified_version now s =
     (case zot_items (last_version (state s)) of
        Inl e \<Rightarrow> (Inr [], s)
      | Inr items \<Rightarrow>
          (case classify (processed_keys (state s)) (processed_titles (state s)) items [] []
                  (case last_modified_version of
                     Inl e \<Rightarrow> state s
                   | Inr lib_version \<Rightarrow> (state s)\<lparr>last_version := lib_version\<rparr>) of
             (new_items, updated_items, st) \<Rightarrow>
               (case update_all now updated_items (markdown_dir s) (obs_watcher s) of
                  (None, v, w) \<Rightarrow> (Inr new_items, \<lparr>state = st, markdown_dir = v, obs_watcher = w\<rparr>)
                | (Some e, v, w) \<Rightarrow> (Inl e, \<lparr>state = st, markdown_dir = v, obs_watcher = w\<rparr>))))"

text \<open>
  \<open>process_item\<close>, lines 429-435: what it records once the calls of lines 401-427
  (extraction, summary, note, reverse note) have returned. The result is the state and
  the state file that \<open>save_state\<close> writes.
\<close>

definition process_item :: "zitem \<Rightarrow> pstate \<Rightarrow> pstate \<times> state_file" where
  "process_item item st =
     (let norm_title = normalize_title (case title (data item) of None \<Rightarrow> key item | Some t \<Rightarrow> t);
          st' = st\<lparr>processed_keys := processed_keys st @ [key item],
                   processed_titles :=
                     (if norm_title \<noteq> [] \<and> norm_title \<notin> set (processed_titles st)
                      then processed_titles st @ [norm_title]
                      else processed_titles st)\<rparr>
      in (st', save_state st'))"

section \<open>The status cache of the models\<close>





section \<open>Scenarios\<close>

text \<open>A journal article with a key and a title, every other field empty.\<close>

definition article :: "ustring \<Rightarrow> ustring \<Rightarrow> zitem" where
  "article k t =
     \<lparr>key = k,
      data = \<lparr>itemType = ustr ''journalArticle'', title = Some t, creators = [], date = [],
        publicationTitle = [], bookTitle = [], proceedingsTitle = [], publisher = [],
        abstractNote = [], DOI = [], volume = [], issue = [], pages = [], ISSN = [], url = [],
        language = [], tags = [], version = 0\<rparr>\<rparr>"

text \<open>
  A remote library as its items with the library version at which each was last
  changed. \<open>items(since=v)\<close> answers with the items changed after version \<open>v\<close> (the
  comment of line 115).
\<close>

definition library_since :: "(zitem \<times> int) list \<Rightarrow> int \<Rightarrow> py_exn + zitem list" where
  "library_since lib since = Inr (map fst (filter (\<lambda>(item, v). since < v) lib))"

text \<open>A library that cannot be reached: the fetch raises.\<close>

definition offline :: "int \<Rightarrow> py_exn + zitem list" where
  "offline since = Inl ConnectionError"

definition item_A :: zitem where
  "item_A = article (ustr ''KEYA'') (ustr ''Deep Learning for X'')"

definition item_B :: zitem where
  "item_B = article (ustr ''KEYB'') (ustr ''Graph Kernels'')"

definition item_A2 :: zitem where
  "item_A2 = article (ustr ''KEYC'') (ustr ''deep  learning for <i>X</i>'')"

definition state_after_A :: pstate where
  "state_after_A =
     \<lparr>last_version = 2, processed_keys = [ustr ''KEYA''],
      processed_titles = [ustr ''deep learning for x'']\<rparr>"


section \<open>Sequences of calls\<close>

text \<open>The scans and the registrations of one watcher, in the order in which they happen.\<close>

datatype watcher_op = Scan "observation list" | Mark real ustring

fun run_watcher ::
  "(ustring \<Rightarrow> ustring) \<Rightarrow> watcher_op list \<Rightarrow> watcher \<Rightarrow> ustring list list \<times> watcher"
where
  "run_watcher hashf [] w = ([], w)"
| "run_watcher hashf (Scan files # ops) w =
     (case scan hashf files w of
        (changed, w') \<Rightarrow>
          (case run_watcher hashf ops w' of (later, w'') \<Rightarrow> (changed # later, w'')))"
| "run_watcher hashf (Mark now path # ops) w =
     run_watcher hashf ops (mark_self_modified now path w)"

text \<open>
  What \<open>scan\<close> does with one file (the body of its loop): the paths it reports and the
  watcher afterwards. \<open>scan_files_step\<close> below shows that \<open>scan_files\<close> is the
  iteration of it.
\<close>

definition scan_step ::
  "(ustring \<Rightarrow> ustring) \<Rightarrow> observation \<Rightarrow> watcher \<Rightarrow> ustring list \<times> watcher"
where
  "scan_step hashf ob w =
     (case ob of
        (path_str, None, now) \<Rightarrow> ([], w)
      | (path_str, Some (mtime, body), now) \<Rightarrow>
          (case snapshots w path_str of
             None \<Rightarrow> ([], w\<lparr>snapshots := (snapshots w)(path_str \<mapsto> (mtime, hashf body))\<rparr>)
           | Some (prev_mtime, prev_hash) \<Rightarrow>
               (if mtime \<noteq> prev_mtime \<and> hashf body \<noteq> prev_hash then
                  (case is_self_modified now path_str w of
                     (suppressed, w') \<Rightarrow>
                       (if \<not> suppressed then [path_str] else [],
                        w'\<lparr>snapshots := (snapshots w')(path_str \<mapsto> (mtime, hashf body))\<rparr>))
                else ([], w))))"


text \<open>Further inputs of the scenarios.\<close>

definition item_backslash :: zitem where
  "item_backslash =
     (article (ustr ''KEYA'') (ustr ''Deep Learning for X''))
       \<lparr>data := (data (article (ustr ''KEYA'') (ustr ''Deep Learning for X'')))
          \<lparr>DOI := ustr ''10.1000/a'' @ [92, 92] @ ustr ''b''\<rparr>\<rparr>"

definition note_blank_doi :: ustring where
  "note_blank_doi = join_nl [ustr ''zotero_key: KEYA'', ustr ''- **DOI**: '']"

text \<open>A stand-in for the digest in the scenarios: the text itself.\<close>

definition plain_hash :: "ustring \<Rightarrow> ustring" where
  "plain_hash body = body"

definition watcher_0 :: watcher where
  "watcher_0 = \<lparr>snapshots = [ustr ''@n.md'' \<mapsto> (1, ustr ''a'')], self_modified = Map.empty\<rparr>"


section \<open>Lines that the merge can fill\<close>








section \<open>Pushing a note to the remote library\<close>




























section \<open>Loading the state\<close>

lemma load_state_soft_cases:
  "load_state Missing = Inr zero_state"
  "load_state Unreadable = Inr zero_state"
  "load_state NotJson = Inr zero_state"
  "load_state (save_state s) = Inr s"
  by (simp_all add: load_state_def file_exists_def save_state_def)

text \<open>
  C5. The claim is that \<open>load_state\<close> returns without raising for every content of the
  state file. For a state file whose bytes are not valid UTF-8 the read raises
  \<open>UnicodeDecodeError\<close>, which the \<open>except\<close> clause does not name: \<open>load_state\<close> raises
  instead of returning the zero state.
\<close>

theorem load_state_raises_on_non_utf8:
  "load_state NotUtf8 = Inl UnicodeDecodeError"
  by (simp add: load_state_def file_exists_def)


section \<open>Detecting new items: failure, restart and duplicates\<close>

lemmas norm_defs = normalize_title_def py_lower_def py_strip_def is_space_def ustr_def

text \<open>
  C6. If the fetch of the remote items raises, \<open>get_new_items\<close> returns the empty list
  and leaves the whole object as it was: \<open>last_version\<close>, \<open>processed_keys\<close>,
  \<open>processed_titles\<close>, the notes and the watcher.
\<close>

theorem fetch_failure_changes_nothing:
  "zot_items (last_version (state s)) = Inl e \<Longrightarrow>
   get_new_items zot_items last_modified_version now s = (Inr [], s)"
  by (simp add: get_new_items_def)

theorem fetch_failure_changes_nothing_witness:
  "offline (last_version (state \<lparr>state = state_after_A, markdown_dir = [], obs_watcher = None\<rparr>))
     = Inl ConnectionError
   \<and> get_new_items offline (Inr 5) 0
        \<lparr>state = state_after_A, markdown_dir = [], obs_watcher = None\<rparr>
     = (Inr [], \<lparr>state = state_after_A, markdown_dir = [], obs_watcher = None\<rparr>)"
  using fetch_failure_changes_nothing
    [of offline "\<lparr>state = state_after_A, markdown_dir = [], obs_watcher = None\<rparr>"
      ConnectionError "Inr 5" 0]
  by (simp add: offline_def)

text \<open>
  C1. The claim is that after a crash between item A and item B of one batch, the restart
  returns B as new again. Here the library holds A (changed at version 1) and B (changed
  at version 2) and is at version 2. The first poll, from the zero state, returns both
  and sets \<open>last_version\<close> to 2; \<open>process_item\<close> on A records A and saves the state, with
  that \<open>last_version\<close>; the process dies. After the restart \<open>load_state\<close> gives the saved
  state, the fetch asks for the items changed since version 2, and \<open>get_new_items\<close>
  returns no item: B is not processed again.
\<close>

theorem restart_after_crash_drops_second_item:
  "get_new_items (library_since [(item_A, 1), (item_B, 2)]) (Inr 2) 0
     \<lparr>state = zero_state, markdown_dir = [], obs_watcher = None\<rparr>
   = (Inr [item_A, item_B],
      \<lparr>state = \<lparr>last_version = 2, processed_keys = [], processed_titles = []\<rparr>,
       markdown_dir = [], obs_watcher = None\<rparr>)
   \<and> process_item item_A \<lparr>last_version = 2, processed_keys = [], processed_titles = []\<rparr>
     = (state_after_A, save_state state_after_A)
   \<and> load_state (save_state state_after_A) = Inr state_after_A
   \<and> get_new_items (library_since [(item_A, 1), (item_B, 2)]) (Inr 2) 0
        \<lparr>state = state_after_A, markdown_dir = [], obs_watcher = None\<rparr>
     = (Inr [], \<lparr>state = state_after_A, markdown_dir = [], obs_watcher = None\<rparr>)"
  by (simp add: get_new_items_def library_since_def zero_state_def item_A_def item_B_def
      article_def process_item_def save_state_def load_state_def file_exists_def
      state_after_A_def norm_defs Let_def)

text \<open>
  C2. The claim is that of two items with equal non-empty normalised titles and
  different keys only the first is processed as new, also when both arrive in one
  batch. Here both arrive in the first poll: their normalised titles are equal and not
  empty, \<open>get_new_items\<close> returns both as new, and the key of the second is not appended
  to \<open>processed_keys\<close>.
\<close>

theorem same_batch_title_duplicates_both_new:
  "key item_A = ustr ''KEYA'' \<and> key item_A2 = ustr ''KEYC''
   \<and> normalize_title (ustr ''Deep Learning for X'') = ustr ''deep learning for x''
   \<and> normalize_title (ustr ''deep  learning for <i>X</i>'') = ustr ''deep learning for x''
   \<and> get_new_items (\<lambda>since. Inr [item_A, item_A2]) (Inr 2) 0
        \<lparr>state = zero_state, markdown_dir = [], obs_watcher = None\<rparr>
     = (Inr [item_A, item_A2],
        \<lparr>state = \<lparr>last_version = 2, processed_keys = [], processed_titles = []\<rparr>,
         markdown_dir = [], obs_watcher = None\<rparr>)"
  by (simp add: get_new_items_def zero_state_def item_A_def item_A2_def article_def norm_defs)


text \<open>
  What does hold for every poll that returns: an item whose key is in \<open>processed_keys\<close>
  is not returned as new, and neither is an item whose normalised title is not empty and
  is in \<open>processed_titles\<close> when the poll starts.
\<close>

lemma classify_new_items:
  "item \<in> set (fst (classify keys titles items new_items updated_items st)) \<Longrightarrow>
   item \<in> set new_items
   \<or> (item \<in> set items \<and> key item \<notin> set keys
       \<and> (normalize_title (case title (data item) of None \<Rightarrow> [] | Some t \<Rightarrow> t) = []
          \<or> normalize_title (case title (data item) of None \<Rightarrow> [] | Some t \<Rightarrow> t) \<notin> set titles))"
proof (induction items arbitrary: new_items updated_items st)
  case Nil
  then show ?case by simp
next
  case (Cons i items)
  from Cons.prems show ?case
    by (auto split: if_splits dest!: Cons.IH)
qed

lemma known_key_not_new:
  "key item \<in> set (processed_keys (state s)) \<Longrightarrow>
   get_new_items zot_items last_modified_version now s = (Inr new_items, s') \<Longrightarrow>
   item \<notin> set new_items"
proof
  assume k: "key item \<in> set (processed_keys (state s))"
    and g: "get_new_items zot_items last_modified_version now s = (Inr new_items, s')"
    and m: "item \<in> set new_items"
  show False
  proof (cases "zot_items (last_version (state s))")
    case (Inl e)
    with g m show False by (simp add: get_new_items_def)
  next
    case (Inr items)
    obtain n u st where c: "classify (processed_keys (state s)) (processed_titles (state s)) items [] []
        (case last_modified_version of Inl e \<Rightarrow> state s
         | Inr lib_version \<Rightarrow> (state s)\<lparr>last_version := lib_version\<rparr>) = (n, u, st)"
      by (metis prod_cases3)
    with g Inr have "new_items = n"
      by (auto simp: get_new_items_def split: prod.splits option.splits)
    with m c classify_new_items [of item "processed_keys (state s)" "processed_titles (state s)"
        items "[]" "[]"] k
    show False by (metis empty_iff empty_set fst_conv)
  qed
qed

lemma known_title_not_new:
  "normalize_title (case title (data item) of None \<Rightarrow> [] | Some t \<Rightarrow> t) \<noteq> [] \<Longrightarrow>
   normalize_title (case title (data item) of None \<Rightarrow> [] | Some t \<Rightarrow> t)
     \<in> set (processed_titles (state s)) \<Longrightarrow>
   get_new_items zot_items last_modified_version now s = (Inr new_items, s') \<Longrightarrow>
   item \<notin> set new_items"
proof
  assume t: "normalize_title (case title (data item) of None \<Rightarrow> [] | Some t \<Rightarrow> t) \<noteq> []"
    "normalize_title (case title (data item) of None \<Rightarrow> [] | Some t \<Rightarrow> t)
     \<in> set (processed_titles (state s))"
    and g: "get_new_items zot_items last_modified_version now s = (Inr new_items, s')"
    and m: "item \<in> set new_items"
  show False
  proof (cases "zot_items (last_version (state s))")
    case (Inl e)
    with g m show False by (simp add: get_new_items_def)
  next
    case (Inr items)
    obtain n u st where c: "classify (processed_keys (state s)) (processed_titles (state s)) items [] []
        (case last_modified_version of Inl e \<Rightarrow> state s
         | Inr lib_version \<Rightarrow> (state s)\<lparr>last_version := lib_version\<rparr>) = (n, u, st)"
      by (metis prod_cases3)
    with g Inr have "new_items = n"
      by (auto simp: get_new_items_def split: prod.splits option.splits)
    with m c classify_new_items [of item "processed_keys (state s)" "processed_titles (state s)"
        items "[]" "[]"] t
    show False by (metis empty_iff empty_set fst_conv)
  qed
qed

section \<open>Backfilling a blank field\<close>

lemmas merge_defs = update_existing_markdown_def read_text_def write_text_def update_text_def
  field_patterns_def field_labels_def build_biblio_def replacement_def re_subn_def sub_line_def
  marker_def rstrip_blank_def is_blank_def ends_with_def starts_with_def
  is_digit_def is_octdigit_def is_ascii_letter_def escapes_def add_part_def
  first_nonempty_def ustr_def

text \<open>
  C4. The claim is that a blank field line carries exactly the remote value after the
  merge, for every value string. Here the note has the blank line \<open>- **DOI**: \<close> and the
  remote DOI is \<open>10.1000/a\\b\<close>, with two backslashes. The value goes into the
  replacement template of \<open>re.subn\<close> as it is, the template reads the two backslashes as
  one escaped backslash, and the line written to the note carries \<open>10.1000/a\b\<close>.
\<close>

theorem backfill_rewrites_backslashes:
  "DOI (data item_backslash) = ustr ''10.1000/a'' @ [92, 92] @ ustr ''b''
   \<and> update_existing_markdown 0 item_backslash [(ustr ''@2023_X.md'', Some note_blank_doi)] None
     = Inr (True,
            [(ustr ''@2023_X.md'',
              Some (join_nl [ustr ''zotero_key: KEYA'', ustr ''- **DOI**: 10.1000/a'' @ [92] @ ustr ''b'']))],
            None)"
  by (simp add: item_backslash_def note_blank_doi_def article_def merge_defs)


text \<open>
  A value without a backslash is written as it is: on a line that the pattern matches
  the substitution appends exactly the value.
\<close>

lemma parse_template_plain:
  "92 \<notin> set v \<Longrightarrow> parse_template groups v = Inr (map Lit v)"
proof (induction v rule: length_induct)
  case (1 v)
  show ?case
  proof (cases v)
    case Nil
    then show ?thesis by simp
  next
    case (Cons c cs)
    note v = Cons
    show ?thesis
    proof (cases cs)
      case Nil
      with v 1(2) show ?thesis by simp
    next
      case (Cons d ds)
      have "parse_template groups (d # ds) = Inr (map Lit (d # ds))"
        using 1 v Cons by simp
      with v Cons 1(2) show ?thesis by (simp add: add_part_def)
    qed
  qed
qed

lemma parse_replacement_plain:
  "92 \<notin> set v \<Longrightarrow> parse_template 1 (replacement v) = Inr (Grp 1 # map Lit v)"
  using parse_template_plain [of v 1]
  by (simp add: replacement_def ustr_def is_digit_def add_part_def)

lemma expand_literals: "expand_template (map Lit v) m = v"
  by (induction v) simp_all

lemma backfill_without_backslash:
  assumes "92 \<notin> set v" "line_matches pat l" "10 \<notin> set l"
  shows "re_subn pat (replacement v) l = Inr (l @ v, 1)"
proof -
  have one: "split_nl l = [l]" using assms(3) by (induction l) auto
  have "sub_line pat (Grp 1 # map Lit v) l = l @ v"
    using assms(2) by (simp add: sub_line_def expand_literals)
  with one assms(2) parse_replacement_plain [OF assms(1)] show ?thesis
    unfolding re_subn_def by simp
qed

section \<open>The status cache as a circuit breaker\<close>





section \<open>The watcher\<close>

lemma scan_files_step:
  "scan_files hashf (ob # files) changed w =
   scan_files hashf files (changed @ fst (scan_step hashf ob w)) (snd (scan_step hashf ob w))"
  by (cases ob) (auto simp: scan_step_def split: option.splits prod.splits)

lemma scan_step_only_own_path:
  "set (fst (scan_step hashf (q, r, now) w)) \<subseteq> {q}"
  by (auto simp: scan_step_def split: option.splits prod.splits if_splits)

lemma scan_step_other_path:
  assumes "q \<noteq> p"
  shows "snapshots (snd (scan_step hashf (q, r, now) w)) p = snapshots w p"
    and "self_modified (snd (scan_step hashf (q, r, now) w)) p = self_modified w p"
  using assms
  by (auto simp: scan_step_def is_self_modified_def split: option.splits prod.splits if_splits)

lemma scan_step_suppressed:
  assumes "self_modified w p = Some ts" "ts \<noteq> 0" "now - ts < SELF_MODIFY_COOLDOWN"
  shows "fst (scan_step hashf (p, r, now) w) = []"
    and "self_modified (snd (scan_step hashf (p, r, now) w)) p = Some ts"
  using assms
  by (auto simp: scan_step_def is_self_modified_def split: option.splits prod.splits if_splits)

lemma scan_step_suppressed_snapshot:
  assumes "self_modified w p = Some ts" "ts \<noteq> 0" "now - ts < SELF_MODIFY_COOLDOWN"
    and "snapshots w p = Some (pm, ph)" "mtime \<noteq> pm" "hashf body \<noteq> ph"
  shows "snapshots (snd (scan_step hashf (p, Some (mtime, body), now) w)) p
         = Some (mtime, hashf body)"
  using assms
  by (auto simp: scan_step_def is_self_modified_def split: option.splits prod.splits if_splits)

lemma scan_step_reported:
  assumes "snapshots w p = Some (pm, ph)" "mtime \<noteq> pm" "hashf body \<noteq> ph"
    and "self_modified w p = None
         \<or> (\<exists>ts. self_modified w p = Some ts \<and> SELF_MODIFY_COOLDOWN \<le> now - ts)"
  shows "fst (scan_step hashf (p, Some (mtime, body), now) w) = [p]"
  using assms
  by (auto simp: scan_step_def is_self_modified_def split: option.splits prod.splits if_splits)

lemma scan_step_stable:
  assumes "snapshots w p = Some (m, h)" "r = None \<or> r = Some (m, body)"
  shows "fst (scan_step hashf (p, r, now) w) = []"
    and "snapshots (snd (scan_step hashf (p, r, now) w)) p = Some (m, h)"
  using assms
  by (auto simp: scan_step_def split: option.splits prod.splits if_splits)

lemma scan_files_suppressed:
  assumes "self_modified w p = Some ts" "ts \<noteq> 0"
    and "\<forall>(q, r, now) \<in> set files. q = p \<longrightarrow> now - ts < SELF_MODIFY_COOLDOWN"
    and "p \<notin> set changed"
  shows "p \<notin> set (fst (scan_files hashf files changed w))"
  using assms
proof (induction files arbitrary: changed w)
  case Nil
  then show ?case by simp
next
  case (Cons ob files)
  obtain q r now where ob: "ob = (q, r, now)" by (cases ob)
  show ?case
  proof (cases "q = p")
    case True
    with Cons.prems ob have win: "now - ts < SELF_MODIFY_COOLDOWN" by simp
    have "fst (scan_step hashf ob w) = []"
      and "self_modified (snd (scan_step hashf ob w)) p = Some ts"
      using scan_step_suppressed [OF Cons.prems(1,2) win] ob True by simp_all
    with Cons.IH [of "snd (scan_step hashf ob w)" "changed @ fst (scan_step hashf ob w)"] Cons.prems
    show ?thesis by (simp add: scan_files_step)
  next
    case False
    have "p \<notin> set (fst (scan_step hashf ob w))"
      using scan_step_only_own_path [of hashf q r now w] False ob by auto
    moreover have "self_modified (snd (scan_step hashf ob w)) p = Some ts"
      using scan_step_other_path(2) [OF False] Cons.prems(1) ob by simp
    ultimately show ?thesis
      using Cons.IH [of "snd (scan_step hashf ob w)" "changed @ fst (scan_step hashf ob w)"] Cons.prems
      by (simp add: scan_files_step)
  qed
qed

lemma scan_files_mono:
  "set changed \<subseteq> set (fst (scan_files hashf files changed w))"
proof (induction files arbitrary: changed w)
  case Nil
  show ?case by simp
next
  case (Cons ob files)
  from Cons [of "changed @ fst (scan_step hashf ob w)" "snd (scan_step hashf ob w)"]
  show ?case by (simp add: scan_files_step)
qed

lemma scan_files_untouched:
  assumes "p \<notin> fst ` set files"
  shows "snapshots (snd (scan_files hashf files changed w)) p = snapshots w p"
  using assms
proof (induction files arbitrary: changed w)
  case Nil
  show ?case by simp
next
  case (Cons ob files)
  obtain q r now where ob: "ob = (q, r, now)" by (cases ob)
  with Cons.prems have "q \<noteq> p" by auto
  from scan_step_other_path(1) [OF this] ob Cons.prems
    Cons.IH [of "changed @ fst (scan_step hashf ob w)" "snd (scan_step hashf ob w)"]
  show ?case by (simp add: scan_files_step)
qed

lemma scan_files_reported:
  assumes "distinct (map fst files)" "(p, Some (mtime, body), now) \<in> set files"
    and "snapshots w p = Some (pm, ph)" "mtime \<noteq> pm" "hashf body \<noteq> ph"
    and "self_modified w p = None
         \<or> (\<exists>ts. self_modified w p = Some ts \<and> SELF_MODIFY_COOLDOWN \<le> now - ts)"
  shows "p \<in> set (fst (scan_files hashf files changed w))"
  using assms
proof (induction files arbitrary: changed w)
  case Nil
  then show ?case by simp
next
  case (Cons ob files)
  show ?case
  proof (cases "ob = (p, Some (mtime, body), now)")
    case True
    have "fst (scan_step hashf ob w) = [p]"
      using scan_step_reported [where hashf = hashf and body = body, OF Cons.prems(3-6)] True
      by simp
    then have "p \<in> set (changed @ fst (scan_step hashf ob w))" by simp
    then show ?thesis
      using scan_files_mono [of "changed @ fst (scan_step hashf ob w)" hashf files
          "snd (scan_step hashf ob w)"]
      by (auto simp: scan_files_step)
  next
    case False
    obtain q r t where ob: "ob = (q, r, t)" by (cases ob)
    from False Cons.prems(2) have mem: "(p, Some (mtime, body), now) \<in> set files" by simp
    then have "p \<in> fst ` set files" by force
    with Cons.prems(1) ob have neq: "q \<noteq> p" by auto
    have "snapshots (snd (scan_step hashf ob w)) p = Some (pm, ph)"
      and "self_modified (snd (scan_step hashf ob w)) p = self_modified w p"
      using scan_step_other_path [OF neq] Cons.prems ob by simp_all
    with Cons.IH [of "snd (scan_step hashf ob w)" "changed @ fst (scan_step hashf ob w)"]
      Cons.prems mem
    show ?thesis by (simp add: scan_files_step)
  qed
qed

lemma scan_files_suppressed_snapshot:
  assumes "distinct (map fst files)" "(p, Some (mtime, body), now) \<in> set files"
    and "snapshots w p = Some (pm, ph)" "mtime \<noteq> pm" "hashf body \<noteq> ph"
    and "self_modified w p = Some ts" "ts \<noteq> 0" "now - ts < SELF_MODIFY_COOLDOWN"
  shows "snapshots (snd (scan_files hashf files changed w)) p = Some (mtime, hashf body)"
  using assms
proof (induction files arbitrary: changed w)
  case Nil
  then show ?case by simp
next
  case (Cons ob files)
  show ?case
  proof (cases "ob = (p, Some (mtime, body), now)")
    case True
    with Cons.prems(1) have "p \<notin> fst ` set files" by auto
    from scan_files_untouched [OF this]
      scan_step_suppressed_snapshot [where hashf = hashf and body = body, OF Cons.prems(6,7,8,3,4,5)] True
    show ?thesis by (simp add: scan_files_step)
  next
    case False
    obtain q r t where ob: "ob = (q, r, t)" by (cases ob)
    from False Cons.prems(2) have mem: "(p, Some (mtime, body), now) \<in> set files" by simp
    then have "p \<in> fst ` set files" by force
    with Cons.prems(1) ob have neq: "q \<noteq> p" by auto
    have "snapshots (snd (scan_step hashf ob w)) p = Some (pm, ph)"
      and "self_modified (snd (scan_step hashf ob w)) p = Some ts"
      using scan_step_other_path [OF neq] Cons.prems ob by simp_all
    with Cons.IH [of "snd (scan_step hashf ob w)" "changed @ fst (scan_step hashf ob w)"]
      Cons.prems mem
    show ?thesis by (simp add: scan_files_step)
  qed
qed

lemma scan_files_stable:
  assumes "snapshots w p = Some (m, h)"
    and "\<forall>(q, r, now) \<in> set files. q = p \<longrightarrow> r = None \<or> r = Some (m, body)"
    and "p \<notin> set changed"
  shows "p \<notin> set (fst (scan_files hashf files changed w))
         \<and> snapshots (snd (scan_files hashf files changed w)) p = Some (m, h)"
  using assms
proof (induction files arbitrary: changed w)
  case Nil
  then show ?case by simp
next
  case (Cons ob files)
  obtain q r now where ob: "ob = (q, r, now)" by (cases ob)
  have step: "p \<notin> set (fst (scan_step hashf ob w))
              \<and> snapshots (snd (scan_step hashf ob w)) p = Some (m, h)"
  proof (cases "q = p")
    case True
    with Cons.prems(2) ob have "r = None \<or> r = Some (m, body)" by simp
    from scan_step_stable [OF Cons.prems(1) this] True ob show ?thesis by simp
  next
    case False
    from scan_step_only_own_path [of hashf q r now w] scan_step_other_path(1) [OF False]
      False ob Cons.prems(1)
    show ?thesis by auto
  qed
  with Cons.prems Cons.IH [of "snd (scan_step hashf ob w)" "changed @ fst (scan_step hashf ob w)"]
  show ?case by (simp add: scan_files_step)
qed


lemma run_watcher_stable:
  assumes "snapshots w p = Some (m, h)"
    and "\<forall>files. Scan files \<in> set ops \<longrightarrow>
           (\<forall>(q, r, now) \<in> set files. q = p \<longrightarrow> r = None \<or> r = Some (m, body))"
  shows "\<forall>changed \<in> set (fst (run_watcher hashf ops w)). p \<notin> set changed"
  using assms
proof (induction ops arbitrary: w)
  case Nil
  show ?case by simp
next
  case (Cons op ops)
  show ?case
  proof (cases op)
    case (Scan files)
    with Cons.prems(2)
    have same: "\<forall>(q, r, now) \<in> set files. q = p \<longrightarrow> r = None \<or> r = Some (m, body)"
      by simp
    have here: "p \<notin> set (fst (scan hashf files w))
                \<and> snapshots (snd (scan hashf files w)) p = Some (m, h)"
      using scan_files_stable [OF Cons.prems(1) same, of "[]" hashf] by (simp add: scan_def)
    with Cons.IH [of "snd (scan hashf files w)"] Cons.prems(2) Scan
    show ?thesis by (auto split: prod.splits)
  next
    case (Mark now path)
    have "snapshots (mark_self_modified now path w) p = Some (m, h)"
      using Cons.prems(1) by (simp add: mark_self_modified_def)
    with Cons.IH [of "mark_self_modified now path w"] Cons.prems(2) Mark
    show ?thesis by simp
  qed
qed

text \<open>
  C7. For a file registered by \<open>mark_self_modified\<close> at the time \<open>ts\<close> (not the time 0,
  which the code reads as no registration): a scan that looks at the file while less
  than \<open>SELF_MODIFY_COOLDOWN\<close> = 3 seconds have passed does not report it; and a scan
  that looks at it when 3 seconds or more have passed, and finds a modification time and
  a content hash that both differ from the stored snapshot, reports it. The watcher is any
  one in which the registration stands: \<open>mark_self_modified ts p w\<close> for any \<open>w\<close>.
\<close>

theorem self_modify_suppression:
  "(ts \<noteq> 0 \<and> (\<forall>(q, r, now) \<in> set files. q = p \<longrightarrow> now - ts < SELF_MODIFY_COOLDOWN) \<longrightarrow>
      p \<notin> set (fst (scan hashf files (mark_self_modified ts p w))))
   \<and> (distinct (map fst files') \<and> (p, Some (mtime, body), now') \<in> set files'
        \<and> SELF_MODIFY_COOLDOWN \<le> now' - ts
        \<and> snapshots w p = Some (prev_mtime, prev_hash)
        \<and> mtime \<noteq> prev_mtime \<and> hashf body \<noteq> prev_hash \<longrightarrow>
      p \<in> set (fst (scan hashf files' (mark_self_modified ts p w))))"
proof (intro conjI impI)
  assume a: "ts \<noteq> 0 \<and> (\<forall>(q, r, now) \<in> set files. q = p \<longrightarrow> now - ts < SELF_MODIFY_COOLDOWN)"
  have "self_modified (mark_self_modified ts p w) p = Some ts"
    by (simp add: mark_self_modified_def)
  from scan_files_suppressed [OF this, of files "[]" hashf] a
  show "p \<notin> set (fst (scan hashf files (mark_self_modified ts p w)))"
    by (simp add: scan_def)
next
  assume a: "distinct (map fst files') \<and> (p, Some (mtime, body), now') \<in> set files'
        \<and> SELF_MODIFY_COOLDOWN \<le> now' - ts
        \<and> snapshots w p = Some (prev_mtime, prev_hash)
        \<and> mtime \<noteq> prev_mtime \<and> hashf body \<noteq> prev_hash"
  have "self_modified (mark_self_modified ts p w) p = Some ts"
    and "snapshots (mark_self_modified ts p w) p = snapshots w p"
    by (simp_all add: mark_self_modified_def)
  with a scan_files_reported [where hashf = hashf and body = body and files = files'
      and p = p and mtime = mtime and now = now' and w = "mark_self_modified ts p w"
      and pm = prev_mtime and ph = prev_hash and changed = "[]"]
  show "p \<in> set (fst (scan hashf files' (mark_self_modified ts p w)))"
    by (simp add: scan_def)
qed

theorem self_modify_suppression_witness:
  "(100 :: real) \<noteq> 0 \<and> (101 :: real) - 100 < SELF_MODIFY_COOLDOWN
   \<and> ustr ''@n.md'' \<notin> set (fst (scan plain_hash [(ustr ''@n.md'', Some (2, ustr ''b''), 101)]
        (mark_self_modified 100 (ustr ''@n.md'') watcher_0)))
   \<and> SELF_MODIFY_COOLDOWN \<le> (104 :: real) - 100
   \<and> snapshots watcher_0 (ustr ''@n.md'') = Some (1, ustr ''a'')
   \<and> (2 :: real) \<noteq> 1 \<and> plain_hash (ustr ''b'') \<noteq> ustr ''a''
   \<and> ustr ''@n.md'' \<in> set (fst (scan plain_hash [(ustr ''@n.md'', Some (2, ustr ''b''), 104)]
        (mark_self_modified 100 (ustr ''@n.md'') watcher_0)))"
  using self_modify_suppression [where ts = 100 and p = "ustr ''@n.md''" and hashf = plain_hash and w = watcher_0
      and files = "[(ustr ''@n.md'', Some (2, ustr ''b''), 101)]"
      and files' = "[(ustr ''@n.md'', Some (2, ustr ''b''), 104)]"
      and mtime = 2 and body = "ustr ''b''" and now' = 104
      and prev_mtime = 1 and prev_hash = "ustr ''a''"]
  by (simp add: SELF_MODIFY_COOLDOWN_def plain_hash_def watcher_0_def ustr_def)

text \<open>
  C9. When a scan finds a file whose modification time and content hash both differ from
  the snapshot, and does not report it because the file is within the cooldown of a
  self-modification, it still stores the new pair as the snapshot. So no later scan
  reports the file as long as the scans find it unreadable or with that same
  modification time and text, whenever they run and whatever is registered in between.
\<close>

theorem suppressed_change_is_never_reported:
  assumes "distinct (map fst files)" "(p, Some (mtime, body), now) \<in> set files"
    and "snapshots w p = Some (prev_mtime, prev_hash)"
    and "mtime \<noteq> prev_mtime" "hashf body \<noteq> prev_hash"
    and "self_modified w p = Some ts" "ts \<noteq> 0" "now - ts < SELF_MODIFY_COOLDOWN"
  shows "p \<notin> set (fst (scan hashf files w))
    \<and> snapshots (snd (scan hashf files w)) p = Some (mtime, hashf body)
    \<and> ((\<forall>files'. Scan files' \<in> set ops \<longrightarrow>
           (\<forall>(q, r, now') \<in> set files'. q = p \<longrightarrow> r = None \<or> r = Some (mtime, body))) \<longrightarrow>
        (\<forall>changed \<in> set (fst (run_watcher hashf ops (snd (scan hashf files w)))).
           p \<notin> set changed))"
proof -
  have one: "\<forall>(q, r, now') \<in> set files. q = p \<longrightarrow> now' - ts < SELF_MODIFY_COOLDOWN"
  proof (clarify)
    fix r now'
    assume "(p, r, now') \<in> set files"
    with assms(1,2) have "(r, now') = (Some (mtime, body), now)"
      using eq_key_imp_eq_value by fastforce
    with assms(8) show "now' - ts < SELF_MODIFY_COOLDOWN" by simp
  qed
  have a: "p \<notin> set (fst (scan hashf files w))"
    using scan_files_suppressed [OF assms(6,7) one, of "[]" hashf] by (simp add: scan_def)
  have b: "snapshots (snd (scan hashf files w)) p = Some (mtime, hashf body)"
    using scan_files_suppressed_snapshot [where hashf = hashf and body = body and changed = "[]",
        OF assms(1,2,3,4,5,6,7,8)]
    by (simp add: scan_def)
  from a b run_watcher_stable [OF b, of ops body hashf] show ?thesis by blast
qed

theorem suppressed_change_is_never_reported_witness:
  "(101 :: real) - 100 < SELF_MODIFY_COOLDOWN
   \<and> snapshots (mark_self_modified 100 (ustr ''@n.md'') watcher_0) (ustr ''@n.md'') = Some (1, ustr ''a'')
   \<and> self_modified (mark_self_modified 100 (ustr ''@n.md'') watcher_0) (ustr ''@n.md'') = Some 100
   \<and> ustr ''@n.md'' \<notin> set (fst (scan plain_hash [(ustr ''@n.md'', Some (2, ustr ''b''), 101)]
        (mark_self_modified 100 (ustr ''@n.md'') watcher_0)))
   \<and> snapshots (snd (scan plain_hash [(ustr ''@n.md'', Some (2, ustr ''b''), 101)]
        (mark_self_modified 100 (ustr ''@n.md'') watcher_0))) (ustr ''@n.md'')
      = Some (2, plain_hash (ustr ''b''))
   \<and> list_all (\<lambda>changed. ustr ''@n.md'' \<notin> set changed)
        (fst (run_watcher plain_hash
           [Scan [(ustr ''@n.md'', Some (2, ustr ''b''), 200)], Mark 300 (ustr ''@n.md''),
            Scan [(ustr ''@n.md'', None, 400)], Scan [(ustr ''@n.md'', Some (2, ustr ''b''), 500)]]
           (snd (scan plain_hash [(ustr ''@n.md'', Some (2, ustr ''b''), 101)]
              (mark_self_modified 100 (ustr ''@n.md'') watcher_0)))))"
  using suppressed_change_is_never_reported [where ts = 100 and p = "ustr ''@n.md''" and hashf = plain_hash
      and w = "mark_self_modified 100 (ustr ''@n.md'') watcher_0"
      and files = "[(ustr ''@n.md'', Some (2, ustr ''b''), 101)]"
      and mtime = 2 and body = "ustr ''b''" and now = 101
      and prev_mtime = 1 and prev_hash = "ustr ''a''"
      and ops = "[Scan [(ustr ''@n.md'', Some (2, ustr ''b''), 200)], Mark 300 (ustr ''@n.md''),
            Scan [(ustr ''@n.md'', None, 400)], Scan [(ustr ''@n.md'', Some (2, ustr ''b''), 500)]]"]
  by (simp add: SELF_MODIFY_COOLDOWN_def plain_hash_def watcher_0_def ustr_def
      mark_self_modified_def list_all_iff)



section \<open>Populated lines under the merge\<close>

lemma split_nl_not_Nil: "split_nl s \<noteq> []"
  by (induction s) (auto split: list.splits)

lemma join_split_nl: "join_nl (split_nl s) = s"
proof (induction s)
  case Nil
  show ?case by simp
next
  case (Cons c s)
  obtain l ls where sp: "split_nl s = l # ls"
    using split_nl_not_Nil [of s] by (cases "split_nl s") auto
  with Cons show ?case by (cases ls) auto
qed




















section \<open>Pushes that write nothing\<close>





end
